theory Spec2Isabelle
  imports Main "HOL-Library.Multiset"
begin

section \<open>The blog views of \<^verbatim>\<open>src/blog/views.py\<close>\<close>

text \<open>
  The three request handlers \<^verbatim>\<open>post_list\<close>, \<^verbatim>\<open>post_detail\<close> and
  \<^verbatim>\<open>post_create\<close> are embedded as functions from the request and the post table to
  the outcome and the post table afterwards. An exception that leaves a handler is the
  \<open>Inl\<close> side of the outcome.

  Type parameters: \<open>'d\<close> is the submitted data (\<^verbatim>\<open>request.POST\<close>), \<open>'e\<close> the
  validation errors of the form, \<open>'f\<close> the validated field values of a post. The
  fields are declared in \<^verbatim>\<open>blog/models.py\<close> and
  \<^verbatim>\<open>blog/forms.py\<close>, outside \<^verbatim>\<open>views.py\<close>, so the handlers are
  verified for every choice of them.
\<close>

subsection \<open>Data\<close>

text \<open>
  Modelled from the spec: the declaration of \<^verbatim>\<open>BlogPost\<close> (\<^verbatim>\<open>blog/models.py\<close>)
  is missing. The spec gives a post an identifier (unique, assigned at creation), a
  creation timestamp, and other fields defined elsewhere. Identifiers and timestamps
  are Python integers here (the timestamp as a count of clock ticks).
\<close>

record 'f BlogPost =
  pk :: int
  created_at :: int
  field_values :: 'f

text \<open>The table of posts, in insertion order.\<close>

type_synonym 'f store = "'f BlogPost list"

text \<open>What the handlers read of \<^verbatim>\<open>HttpRequest\<close>: \<^verbatim>\<open>request.method\<close> and \<^verbatim>\<open>request.POST\<close>.\<close>

record 'd HttpRequest =
  request_method :: string
  POST :: 'd

text \<open>
  Modelled from the spec: the class \<^verbatim>\<open>BlogPostForm\<close> (\<^verbatim>\<open>blog/forms.py\<close>) is
  missing. The spec describes it as a component that converts raw submitted data into a
  validated post or a set of field errors. A form object holds the data it was bound to
  (\<open>None\<close> for an unbound form), the errors found by validation, and the cleaned
  values of a successful validation.
\<close>

record ('d, 'e, 'f) BlogPostForm =
  data :: "'d option"
  errors :: "'e option"
  cleaned_data :: "'f option"

datatype error = Http404 | MultipleObjectsReturned | ValueError

text \<open>The values of a template context, and the context as the dictionary literal of the source.\<close>

datatype ('d, 'e, 'f) ctxval =
    Posts "'f BlogPost list"
  | Post "'f BlogPost"
  | Form "('d, 'e, 'f) BlogPostForm"

type_synonym ('d, 'e, 'f) template_context = "(string \<times> ('d, 'e, 'f) ctxval) list"

text \<open>
  A response is kept symbolic: the template engine and the URL resolver are outside the
  repository, so a rendered page is the request, the template name and the context
  handed to \<^verbatim>\<open>render\<close>, and a redirect is the view name and the \<^verbatim>\<open>pk\<close>
  handed to \<^verbatim>\<open>redirect\<close>.
\<close>

datatype ('d, 'e, 'f) HttpResponse =
    Rendered "'d HttpRequest" string "('d, 'e, 'f) template_context"
  | Redirect string int

type_synonym ('d, 'e, 'f) outcome = "(error + ('d, 'e, 'f) HttpResponse) \<times> 'f store"

subsection \<open>The framework calls the handlers make\<close>

definition render ::
  "'d HttpRequest \<Rightarrow> string \<Rightarrow> ('d, 'e, 'f) template_context \<Rightarrow> ('d, 'e, 'f) HttpResponse" where
  "render request template_name ctx = Rendered request template_name ctx"

definition redirect :: "string \<Rightarrow> int \<Rightarrow> ('d, 'e, 'f) HttpResponse" where
  "redirect to k = Redirect to k"

text \<open>
  \<^verbatim>\<open>BlogPost.objects.order_by("-created_at")\<close>: every row of the table, by descending
  creation time. Rows with equal timestamps stay in table order.
\<close>

definition order_by_created_at_desc :: "'f store \<Rightarrow> 'f BlogPost list" where
  "order_by_created_at_desc s = sort_key (\<lambda>p. - created_at p) s"

text \<open>
  \<^verbatim>\<open>get_object_or_404(BlogPost, pk=k)\<close>: the query \<^verbatim>\<open>get(pk=k)\<close> raises
  \<^verbatim>\<open>DoesNotExist\<close> when no row matches, which the helper turns into
  \<^verbatim>\<open>Http404\<close>, and \<^verbatim>\<open>MultipleObjectsReturned\<close> when several rows match, which
  the helper lets through.
\<close>

definition get_object_or_404 :: "'f store \<Rightarrow> int \<Rightarrow> error + 'f BlogPost" where
  "get_object_or_404 s k =
     (case filter (\<lambda>p. pk p = k) s of
        [] \<Rightarrow> Inl Http404
      | [p] \<Rightarrow> Inr p
      | _ \<Rightarrow> Inl MultipleObjectsReturned)"

subsection \<open>The form\<close>

text \<open>\<^verbatim>\<open>BlogPostForm()\<close> and \<^verbatim>\<open>BlogPostForm(request.POST)\<close>.\<close>

definition unbound_form :: "('d, 'e, 'f) BlogPostForm" where
  "unbound_form = \<lparr>data = None, errors = None, cleaned_data = None\<rparr>"

definition bound_form :: "'d \<Rightarrow> ('d, 'e, 'f) BlogPostForm" where
  "bound_form d = \<lparr>data = Some d, errors = None, cleaned_data = None\<rparr>"

text \<open>
  \<^verbatim>\<open>form.is_valid()\<close>. The validation rules are the parameter \<open>clean\<close>: it sends
  submitted data to the field errors (\<open>Inl\<close>) or to the validated values (\<open>Inr\<close>).
  The call records the result in the form and answers whether the form is bound and
  without errors.
\<close>

definition is_valid ::
  "('d \<Rightarrow> 'e + 'f) \<Rightarrow> ('d, 'e, 'f) BlogPostForm \<Rightarrow> bool \<times> ('d, 'e, 'f) BlogPostForm" where
  "is_valid clean form =
     (case data form of
        None \<Rightarrow> (False, form)
      | Some d \<Rightarrow>
          (case clean d of
             Inl errs \<Rightarrow> (False, form\<lparr>errors := Some errs\<rparr>)
           | Inr vals \<Rightarrow> (True, form\<lparr>cleaned_data := Some vals\<rparr>)))"

text \<open>The largest identifier in the table (0 for the empty table).\<close>

primrec max_pk :: "'f store \<Rightarrow> int" where
  "max_pk [] = 0"
| "max_pk (p # ps) = max (pk p) (max_pk ps)"

text \<open>
  \<^verbatim>\<open>form.save()\<close>. Modelled from the spec: the new post gets its identifier and its
  creation timestamp from the store at creation. The identifier is the next one after
  the largest in the table, the timestamp is the clock reading \<open>now\<close>. A form that did
  not validate cannot be saved (\<^verbatim>\<open>ValueError\<close>).
\<close>

definition save ::
  "('d, 'e, 'f) BlogPostForm \<Rightarrow> int \<Rightarrow> 'f store \<Rightarrow> (error + 'f BlogPost) \<times> 'f store" where
  "save form now s =
     (case cleaned_data form of
        None \<Rightarrow> (Inl ValueError, s)
      | Some vals \<Rightarrow>
          (let post = \<lparr>pk = max_pk s + 1, created_at = now, field_values = vals\<rparr>
           in (Inr post, s @ [post])))"

subsection \<open>The handlers\<close>

definition post_list :: "'d HttpRequest \<Rightarrow> 'f store \<Rightarrow> ('d, 'e, 'f) outcome" where
  "post_list request s =
     (let posts = order_by_created_at_desc s
      in (Inr (render request ''blog/index.html'' [(''posts'', Posts posts)]), s))"

definition post_detail :: "'d HttpRequest \<Rightarrow> int \<Rightarrow> 'f store \<Rightarrow> ('d, 'e, 'f) outcome" where
  "post_detail request k s =
     (case get_object_or_404 s k of
        Inl e \<Rightarrow> (Inl e, s)
      | Inr post \<Rightarrow> (Inr (render request ''blog/detail.html'' [(''post'', Post post)]), s))"

text \<open>
  \<open>clean\<close> is the validation of the form class, \<open>now\<close> the clock reading the store
  takes if the handler saves a post.
\<close>

definition post_create ::
  "('d \<Rightarrow> 'e + 'f) \<Rightarrow> int \<Rightarrow> 'd HttpRequest \<Rightarrow> 'f store \<Rightarrow> ('d, 'e, 'f) outcome" where
  "post_create clean now request s =
     (if request_method request = ''POST'' then
        (let form = bound_form (POST request);
             (valid, form) = is_valid clean form
         in if valid then
              (case save form now s of
                 (Inl e, s') \<Rightarrow> (Inl e, s')
               | (Inr post, s') \<Rightarrow> (Inr (redirect ''blog:post_detail'' (pk post)), s'))
            else (Inr (render request ''blog/create.html'' [(''form'', Form form)]), s))
      else
        (let form = unbound_form
         in (Inr (render request ''blog/create.html'' [(''form'', Form form)]), s)))"

subsection \<open>Sequences of requests\<close>

text \<open>
  A call names a handler and its arguments. Each call is served at a clock reading,
  which only the create handler hands on to the store.
\<close>

datatype 'd call =
    ListCall "'d HttpRequest"
  | DetailCall "'d HttpRequest" int
  | CreateCall "'d HttpRequest"

fun handle :: "('d \<Rightarrow> 'e + 'f) \<Rightarrow> int \<Rightarrow> 'd call \<Rightarrow> 'f store \<Rightarrow> ('d, 'e, 'f) outcome" where
  "handle clean now (ListCall request) s = post_list request s"
| "handle clean now (DetailCall request k) s = post_detail request k s"
| "handle clean now (CreateCall request) s = post_create clean now request s"

fun run :: "('d \<Rightarrow> 'e + 'f) \<Rightarrow> (int \<times> 'd call) list \<Rightarrow> 'f store \<Rightarrow> 'f store" where
  "run clean [] s = s"
| "run clean ((now, c) # cs) s = run clean cs (snd (handle clean now c s))"

text \<open>No two rows of the table share an identifier.\<close>

definition pk_unique :: "'f store \<Rightarrow> bool" where
  "pk_unique s = distinct (map pk s)"

subsection \<open>Sample inputs\<close>

text \<open>
  A form with one text field that must not be empty, a submission that passes it, one
  that fails it, a request that is not a submission, and a table of two posts.
\<close>

definition sample_clean :: "string \<Rightarrow> string + string" where
  "sample_clean d = (if d = [] then Inl ''This field is required.'' else Inr d)"

definition valid_submission :: "string HttpRequest" where
  "valid_submission = \<lparr>request_method = ''POST'', POST = ''hello''\<rparr>"

definition invalid_submission :: "string HttpRequest" where
  "invalid_submission = \<lparr>request_method = ''POST'', POST = []\<rparr>"

definition head_request :: "string HttpRequest" where
  "head_request = \<lparr>request_method = ''HEAD'', POST = []\<rparr>"

definition first_post :: "string BlogPost" where
  "first_post = \<lparr>pk = 1, created_at = 10, field_values = ''first''\<rparr>"

definition second_post :: "string BlogPost" where
  "second_post = \<lparr>pk = 2, created_at = 20, field_values = ''second''\<rparr>"

definition sample_store :: "string store" where
  "sample_store = [first_post, second_post]"

section \<open>Properties of the framework calls\<close>

lemma order_by_mset: "mset (order_by_created_at_desc s) = mset s"
  by (simp add: order_by_created_at_desc_def)

lemma order_by_sorted:
  "sorted_wrt (\<lambda>a b. created_at b \<le> created_at a) (order_by_created_at_desc s)"
proof -
  have "sorted (map (\<lambda>p. - created_at p) (order_by_created_at_desc s))"
    by (simp add: order_by_created_at_desc_def)
  then show ?thesis
    by (simp add: sorted_map)
qed

subsection \<open>Identifiers\<close>

lemma max_pk_ge: "p \<in> set s \<Longrightarrow> pk p \<le> max_pk s"
  by (induction s) auto

lemma fresh_pk: "max_pk s + 1 \<notin> pk ` set s"
  using max_pk_ge by fastforce

section \<open>The three paths of the create handler\<close>

lemma post_create_valid:
  assumes "request_method request = ''POST''" and "clean (POST request) = Inr vals"
  shows "post_create clean now request s =
           (Inr (redirect ''blog:post_detail'' (max_pk s + 1)),
            s @ [\<lparr>pk = max_pk s + 1, created_at = now, field_values = vals\<rparr>])"
  using assms by (simp add: post_create_def bound_form_def is_valid_def save_def Let_def)

lemma post_create_invalid:
  assumes "request_method request = ''POST''" and "clean (POST request) = Inl errs"
  shows "post_create clean now request s =
           (Inr (render request ''blog/create.html''
                   [(''form'', Form ((bound_form (POST request))\<lparr>errors := Some errs\<rparr>))]), s)"
  using assms by (simp add: post_create_def bound_form_def is_valid_def Let_def)

lemma post_create_display:
  assumes "request_method request \<noteq> ''POST''"
  shows "post_create clean now request s =
           (Inr (render request ''blog/create.html'' [(''form'', Form unbound_form)]), s)"
  using assms by (simp add: post_create_def Let_def)

lemma is_valid_bound:
  "fst (is_valid clean (bound_form d)) = (\<exists>vals. clean d = Inr vals)"
  by (cases "clean d") (simp_all add: is_valid_def bound_form_def)

section \<open>Looking a post up\<close>

lemma filter_pk_empty: "k \<notin> pk ` set s \<Longrightarrow> filter (\<lambda>p. pk p = k) s = []"
  by (induction s) auto

lemma filter_pk_unique:
  "distinct (map pk s) \<Longrightarrow> post \<in> set s \<Longrightarrow> filter (\<lambda>p. pk p = pk post) s = [post]"
proof (induction s)
  case Nil
  then show ?case by simp
next
  case (Cons a s)
  show ?case
  proof (cases "a = post")
    case True
    with Cons.prems have "pk post \<notin> pk ` set s" by simp
    then show ?thesis using True by (simp add: filter_pk_empty)
  next
    case False
    with Cons.prems have "post \<in> set s" by simp
    moreover from this Cons.prems have "pk a \<noteq> pk post" by force
    ultimately show ?thesis using Cons by simp
  qed
qed

lemma get_missing: "k \<notin> pk ` set s \<Longrightarrow> get_object_or_404 s k = Inl Http404"
  by (simp add: get_object_or_404_def filter_pk_empty)

lemma get_Http404_iff: "get_object_or_404 s k = Inl Http404 \<longleftrightarrow> k \<notin> pk ` set s"
proof
  assume h: "get_object_or_404 s k = Inl Http404"
  then have "filter (\<lambda>p. pk p = k) s = []"
    by (auto simp: get_object_or_404_def split: list.splits)
  then show "k \<notin> pk ` set s"
    by (auto simp: filter_empty_conv)
qed (rule get_missing)

lemma get_present:
  "pk_unique s \<Longrightarrow> post \<in> set s \<Longrightarrow> get_object_or_404 s (pk post) = Inr post"
  by (simp add: get_object_or_404_def pk_unique_def filter_pk_unique)

lemma get_unique_error:
  assumes "pk_unique s" and "get_object_or_404 s k = Inl e"
  shows "e = Http404"
proof (cases "k \<in> pk ` set s")
  case True
  then obtain post where "post \<in> set s" "pk post = k" by auto
  with assms show ?thesis using get_present by fastforce
next
  case False
  with assms(2) show ?thesis by (simp add: get_missing)
qed

section \<open>Effects on the table\<close>

lemma post_create_no_error: "fst (post_create clean now request s) \<noteq> Inl e"
proof (cases "request_method request = ''POST''")
  case True
  then show ?thesis
    by (cases "clean (POST request)") (simp_all add: post_create_valid post_create_invalid)
next
  case False
  then show ?thesis by (simp add: post_create_display)
qed

lemma post_create_extends:
  "\<exists>new. snd (post_create clean now request s) = s @ new \<and> length new \<le> 1"
proof (cases "request_method request = ''POST''")
  case True
  then show ?thesis
    by (cases "clean (POST request)") (simp_all add: post_create_valid post_create_invalid)
next
  case False
  then show ?thesis by (simp add: post_create_display)
qed

lemma handle_extends: "\<exists>new. snd (handle clean now c s) = s @ new"
proof (cases c)
  case (CreateCall request)
  then show ?thesis using post_create_extends [of clean now request s] by auto
qed (simp_all add: post_list_def post_detail_def split: sum.splits)

lemma run_extends: "\<exists>new. run clean cs s = s @ new"
proof (induction cs arbitrary: s)
  case Nil
  then show ?case by simp
next
  case (Cons a cs)
  obtain now c where a: "a = (now, c)" by (cases a)
  obtain n1 where n1: "snd (handle clean now c s) = s @ n1"
    using handle_extends by blast
  obtain n2 where "run clean cs (s @ n1) = (s @ n1) @ n2"
    using Cons.IH by blast
  with a n1 show ?case by simp
qed

lemma pk_unique_snoc: "pk_unique s \<Longrightarrow> pk p \<notin> pk ` set s \<Longrightarrow> pk_unique (s @ [p])"
  by (simp add: pk_unique_def)

lemma post_create_pk_unique:
  assumes "pk_unique s"
  shows "pk_unique (snd (post_create clean now request s))"
proof (cases "request_method request = ''POST''")
  case True
  show ?thesis
  proof (cases "clean (POST request)")
    case (Inl errs)
    with True assms show ?thesis by (simp add: post_create_invalid)
  next
    case (Inr vals)
    with True assms fresh_pk [of s] show ?thesis
      by (simp add: post_create_valid pk_unique_snoc)
  qed
next
  case False
  with assms show ?thesis by (simp add: post_create_display)
qed

lemma handle_pk_unique: "pk_unique s \<Longrightarrow> pk_unique (snd (handle clean now c s))"
  by (cases c) (simp_all add: post_list_def post_detail_def post_create_pk_unique split: sum.splits)

lemma run_pk_unique: "pk_unique s \<Longrightarrow> pk_unique (run clean cs s)"
proof (induction cs arbitrary: s)
  case Nil
  then show ?case by simp
next
  case (Cons a cs)
  then show ?case by (cases a) (simp add: handle_pk_unique)
qed

lemma post_create_fresh:
  assumes "snd (post_create clean now request s) = s @ new"
  shows "pk ` set new \<inter> pk ` set s = {}"
proof (cases "request_method request = ''POST''")
  case True
  show ?thesis
  proof (cases "clean (POST request)")
    case (Inl errs)
    with True assms show ?thesis by (simp add: post_create_invalid)
  next
    case (Inr vals)
    with True assms fresh_pk [of s] show ?thesis
      by (auto simp add: post_create_valid)
  qed
next
  case False
  with assms show ?thesis by (simp add: post_create_display)
qed

section \<open>A sample sequence of calls\<close>

lemma sample_run:
  "run sample_clean [(30, CreateCall valid_submission), (5, ListCall head_request),
      (6, DetailCall head_request 9), (31, CreateCall invalid_submission)] sample_store =
   sample_store @ [\<lparr>pk = 3, created_at = 30, field_values = ''hello''\<rparr>]"
  by (simp add: post_create_def post_list_def post_detail_def get_object_or_404_def Let_def
      is_valid_def bound_form_def save_def sample_clean_def valid_submission_def
      invalid_submission_def sample_store_def first_post_def second_post_def)

section \<open>The claims\<close>

text \<open>
  C1. A POST request to the create handler whose data passes the validation of the form
  appends exactly one post to the table, a post with an identifier no row had and with
  the validated values, and answers with a redirect to the detail view at the identifier
  of that post.
\<close>

theorem create_valid_persists_one_and_redirects:
  assumes "request_method request = ''POST''"
    and "fst (is_valid clean (bound_form (POST request)))"
  shows "\<exists>post. post_create clean now request s =
                  (Inr (redirect ''blog:post_detail'' (pk post)), s @ [post])
          \<and> pk post \<notin> pk ` set s
          \<and> clean (POST request) = Inr (field_values post)"
proof -
  from assms(2) obtain vals where vals: "clean (POST request) = Inr vals"
    by (auto simp: is_valid_bound)
  let ?post = "\<lparr>pk = max_pk s + 1, created_at = now, field_values = vals\<rparr>"
  have "post_create clean now request s =
          (Inr (redirect ''blog:post_detail'' (pk ?post)), s @ [?post])"
    using assms(1) vals by (simp add: post_create_valid)
  moreover have "pk ?post \<notin> pk ` set s"
    using fresh_pk [of s] by simp
  moreover have "clean (POST request) = Inr (field_values ?post)"
    using vals by simp
  ultimately show ?thesis by blast
qed

theorem create_valid_witness:
  "request_method valid_submission = ''POST''
   \<and> fst (is_valid sample_clean (bound_form (POST valid_submission)))
   \<and> (\<exists>post. post_create sample_clean 30 valid_submission sample_store =
                  (Inr (redirect ''blog:post_detail'' (pk post)), sample_store @ [post])
          \<and> pk post \<notin> pk ` set sample_store
          \<and> sample_clean (POST valid_submission) = Inr (field_values post))"
proof -
  have m: "request_method valid_submission = ''POST''"
    by (simp add: valid_submission_def)
  have v: "fst (is_valid sample_clean (bound_form (POST valid_submission)))"
    by (simp add: valid_submission_def is_valid_def bound_form_def sample_clean_def)
  show ?thesis
    using m v create_valid_persists_one_and_redirects [OF m v, of 30 sample_store] by simp
qed

text \<open>
  C2. For every table, the listing handler renders the index page with all rows of the
  table, each as often as the table holds it, in descending order of creation time.
\<close>

theorem list_all_posts_newest_first:
  "\<exists>posts. post_list request s =
             (Inr (render request ''blog/index.html'' [(''posts'', Posts posts)]), s)
     \<and> mset posts = mset s
     \<and> sorted_wrt (\<lambda>a b. created_at b \<le> created_at a) posts"
  using order_by_mset [of s] order_by_sorted [of s]
  by (auto simp: post_list_def Let_def)

text \<open>
  C3. For an identifier that no row carries, the detail handler raises \<^verbatim>\<open>Http404\<close>
  and it raises \<^verbatim>\<open>Http404\<close> only then; on a table whose identifiers are unique it
  raises nothing else, and the listing and create handlers raise no error at all.
\<close>

theorem detail_not_found_is_only_error:
  "(k \<notin> pk ` set s \<longrightarrow> post_detail request k s = (Inl Http404, s))
   \<and> (fst (post_detail request k s) = Inl Http404 \<longrightarrow> k \<notin> pk ` set s)
   \<and> (pk_unique s \<longrightarrow> fst (post_detail request k s) = Inl e \<longrightarrow> e = Http404)
   \<and> fst (post_list request' s) \<noteq> Inl e
   \<and> fst (post_create clean now request'' s) \<noteq> Inl e"
proof -
  have "k \<notin> pk ` set s \<longrightarrow> post_detail request k s = (Inl Http404, s)"
    by (simp add: post_detail_def get_missing)
  moreover have "fst (post_detail request k s) = Inl Http404 \<longrightarrow> k \<notin> pk ` set s"
    using get_Http404_iff [of s k]
    by (auto simp: post_detail_def split: sum.splits)
  moreover have "pk_unique s \<longrightarrow> fst (post_detail request k s) = Inl e \<longrightarrow> e = Http404"
    using get_unique_error [of s k]
    by (auto simp: post_detail_def split: sum.splits)
  moreover have "fst (post_list request' s) \<noteq> Inl e"
    by (simp add: post_list_def Let_def)
  moreover have "fst (post_create clean now request'' s) \<noteq> Inl e"
    by (rule post_create_no_error)
  ultimately show ?thesis by blast
qed

theorem detail_not_found_witness:
  "3 \<notin> pk ` set sample_store
   \<and> post_detail head_request 3 sample_store = (Inl Http404, sample_store)
   \<and> pk_unique sample_store
   \<and> fst (post_list head_request sample_store) \<noteq> Inl Http404
   \<and> fst (post_create sample_clean 30 valid_submission sample_store) \<noteq> Inl Http404"
proof -
  have a: "3 \<notin> pk ` set sample_store"
    by (simp add: sample_store_def first_post_def second_post_def)
  have u: "pk_unique sample_store"
    by (simp add: pk_unique_def sample_store_def first_post_def second_post_def)
  show ?thesis
    using a u detail_not_found_is_only_error
      [of 3 sample_store head_request Http404 head_request sample_clean 30 valid_submission]
    by simp
qed

text \<open>
  C4. A POST request to the create handler whose data fails the validation of the form
  leaves the table as it was and renders the create page with the bound form, which
  carries the submitted data and the validation errors.
\<close>

theorem create_invalid_keeps_store_and_shows_errors:
  assumes "request_method request = ''POST''"
    and "\<not> fst (is_valid clean (bound_form (POST request)))"
  shows "\<exists>errs. clean (POST request) = Inl errs
          \<and> post_create clean now request s =
              (Inr (render request ''blog/create.html''
                 [(''form'', Form \<lparr>data = Some (POST request), errors = Some errs,
                                    cleaned_data = None\<rparr>)]), s)"
proof -
  from assms(2) obtain errs where errs: "clean (POST request) = Inl errs"
    by (cases "clean (POST request)") (auto simp: is_valid_bound)
  with assms(1) show ?thesis
    by (simp add: post_create_invalid bound_form_def)
qed

theorem create_invalid_witness:
  "request_method invalid_submission = ''POST''
   \<and> \<not> fst (is_valid sample_clean (bound_form (POST invalid_submission)))
   \<and> (\<exists>errs. sample_clean (POST invalid_submission) = Inl errs
          \<and> post_create sample_clean 30 invalid_submission sample_store =
              (Inr (render invalid_submission ''blog/create.html''
                 [(''form'', Form \<lparr>data = Some (POST invalid_submission), errors = Some errs,
                                    cleaned_data = None\<rparr>)]), sample_store))"
proof -
  have m: "request_method invalid_submission = ''POST''"
    by (simp add: invalid_submission_def)
  have v: "\<not> fst (is_valid sample_clean (bound_form (POST invalid_submission)))"
    by (simp add: invalid_submission_def is_valid_def bound_form_def sample_clean_def)
  show ?thesis
    using m v create_invalid_keeps_store_and_shows_errors [OF m v, of 30 sample_store] by simp
qed

text \<open>
  C5. For the identifier of a post of the table (identifiers being unique), the detail
  handler renders the detail page with exactly that post and leaves the table as it was.
\<close>

theorem detail_renders_the_post:
  assumes "pk_unique s" and "post \<in> set s"
  shows "post_detail request (pk post) s =
           (Inr (render request ''blog/detail.html'' [(''post'', Post post)]), s)"
  using assms by (simp add: post_detail_def get_present)

theorem detail_renders_witness:
  "pk_unique sample_store \<and> second_post \<in> set sample_store
   \<and> post_detail head_request 2 sample_store =
       (Inr (render head_request ''blog/detail.html'' [(''post'', Post second_post)]),
        sample_store)"
proof -
  have u: "pk_unique sample_store"
    by (simp add: pk_unique_def sample_store_def first_post_def second_post_def)
  have i: "second_post \<in> set sample_store"
    by (simp add: sample_store_def)
  have "pk second_post = 2"
    by (simp add: second_post_def)
  then show ?thesis
    using u i detail_renders_the_post [OF u i, of head_request] by simp
qed

text \<open>
  C6. Submitting the same valid data twice in a row appends two posts to the table. They
  carry the same validated values and different identifiers, and each submission is
  answered with a redirect to its own post: nothing is deduplicated.
\<close>

theorem double_submission_creates_two_posts:
  assumes "request_method request = ''POST''"
    and "fst (is_valid clean (bound_form (POST request)))"
  shows "\<exists>p1 p2.
           post_create clean now1 request s =
             (Inr (redirect ''blog:post_detail'' (pk p1)), s @ [p1])
         \<and> post_create clean now2 request (s @ [p1]) =
             (Inr (redirect ''blog:post_detail'' (pk p2)), s @ [p1, p2])
         \<and> run clean [(now1, CreateCall request), (now2, CreateCall request)] s = s @ [p1, p2]
         \<and> pk p1 \<noteq> pk p2
         \<and> field_values p1 = field_values p2
         \<and> clean (POST request) = Inr (field_values p1)"
proof -
  from assms(2) obtain vals where vals: "clean (POST request) = Inr vals"
    by (auto simp: is_valid_bound)
  let ?p1 = "\<lparr>pk = max_pk s + 1, created_at = now1, field_values = vals\<rparr>"
  let ?s1 = "s @ [?p1]"
  let ?p2 = "\<lparr>pk = max_pk ?s1 + 1, created_at = now2, field_values = vals\<rparr>"
  have c1: "post_create clean now1 request s =
              (Inr (redirect ''blog:post_detail'' (pk ?p1)), ?s1)"
    using assms(1) vals by (simp add: post_create_valid)
  have c2: "post_create clean now2 request ?s1 =
              (Inr (redirect ''blog:post_detail'' (pk ?p2)), s @ [?p1, ?p2])"
    using assms(1) vals post_create_valid [of request clean vals now2 ?s1] by simp
  have r: "run clean [(now1, CreateCall request), (now2, CreateCall request)] s = s @ [?p1, ?p2]"
    using c1 c2 by simp
  have "pk ?p1 \<le> max_pk ?s1"
    by (rule max_pk_ge) simp
  then have d: "pk ?p1 \<noteq> pk ?p2" by simp
  have f: "field_values ?p1 = field_values ?p2" by simp
  have v: "clean (POST request) = Inr (field_values ?p1)" using vals by simp
  from c1 c2 r d f v show ?thesis by blast
qed

theorem double_submission_witness:
  "request_method valid_submission = ''POST''
   \<and> fst (is_valid sample_clean (bound_form (POST valid_submission)))
   \<and> (\<exists>p1 p2.
           post_create sample_clean 30 valid_submission sample_store =
             (Inr (redirect ''blog:post_detail'' (pk p1)), sample_store @ [p1])
         \<and> post_create sample_clean 31 valid_submission (sample_store @ [p1]) =
             (Inr (redirect ''blog:post_detail'' (pk p2)), sample_store @ [p1, p2])
         \<and> run sample_clean
               [(30, CreateCall valid_submission), (31, CreateCall valid_submission)]
               sample_store = sample_store @ [p1, p2]
         \<and> pk p1 \<noteq> pk p2
         \<and> field_values p1 = field_values p2
         \<and> sample_clean (POST valid_submission) = Inr (field_values p1))"
proof -
  have m: "request_method valid_submission = ''POST''"
    by (simp add: valid_submission_def)
  have v: "fst (is_valid sample_clean (bound_form (POST valid_submission)))"
    by (simp add: valid_submission_def is_valid_def bound_form_def sample_clean_def)
  show ?thesis
    using m v double_submission_creates_two_posts [OF m v, of 30 sample_store 31] by simp
qed

text \<open>
  C7. The listing and detail handlers return the table as they found it. The create
  handler, and so every sequence of calls of the three handlers, only appends rows: the
  table before is a prefix of the table after, so every post that was there is still
  there, unmodified.
\<close>

theorem reads_keep_store_and_posts_stay:
  "snd (post_list request s) = s
   \<and> snd (post_detail request' k s) = s
   \<and> (\<exists>new. snd (post_create clean now request'' s) = s @ new)
   \<and> (\<exists>new. run clean cs s = s @ new)"
proof -
  have "snd (post_list request s) = s"
    by (simp add: post_list_def Let_def)
  moreover have "snd (post_detail request' k s) = s"
    by (simp add: post_detail_def split: sum.splits)
  moreover have "\<exists>new. snd (post_create clean now request'' s) = s @ new"
    using post_create_extends [of clean now request'' s] by blast
  moreover have "\<exists>new. run clean cs s = s @ new"
    by (rule run_extends)
  ultimately show ?thesis by blast
qed

text \<open>
  C8. Starting from a table whose identifiers are unique, the table after any sequence
  of calls of the three handlers has unique identifiers, and whatever a create call
  appends to it carries an identifier that no row of it has, so uniqueness holds after
  that call too.
\<close>

theorem identifiers_stay_unique:
  assumes "pk_unique s"
    and "snd (post_create clean now request (run clean cs s)) = run clean cs s @ new"
  shows "pk_unique (run clean cs s)
         \<and> pk ` set new \<inter> pk ` set (run clean cs s) = {}
         \<and> pk_unique (run clean cs s @ new)"
proof -
  have "pk_unique (run clean cs s)"
    using assms(1) by (rule run_pk_unique)
  moreover have "pk ` set new \<inter> pk ` set (run clean cs s) = {}"
    using assms(2) by (rule post_create_fresh)
  moreover have "pk_unique (run clean cs s @ new)"
    using post_create_pk_unique [OF \<open>pk_unique (run clean cs s)\<close>, of clean now request] assms(2)
    by simp
  ultimately show ?thesis by blast
qed

theorem identifiers_stay_unique_witness:
  "pk_unique sample_store
   \<and> snd (post_create sample_clean 32 valid_submission
        (run sample_clean [(30, CreateCall valid_submission), (5, ListCall head_request),
           (6, DetailCall head_request 9), (31, CreateCall invalid_submission)] sample_store)) =
      run sample_clean [(30, CreateCall valid_submission), (5, ListCall head_request),
           (6, DetailCall head_request 9), (31, CreateCall invalid_submission)] sample_store
        @ [\<lparr>pk = 4, created_at = 32, field_values = ''hello''\<rparr>]
   \<and> pk_unique (run sample_clean [(30, CreateCall valid_submission), (5, ListCall head_request),
           (6, DetailCall head_request 9), (31, CreateCall invalid_submission)] sample_store)
   \<and> pk ` set [\<lparr>pk = 4, created_at = 32, field_values = ''hello''\<rparr>]
       \<inter> pk ` set (run sample_clean [(30, CreateCall valid_submission),
           (5, ListCall head_request), (6, DetailCall head_request 9),
           (31, CreateCall invalid_submission)] sample_store) = {}
   \<and> pk_unique (run sample_clean [(30, CreateCall valid_submission), (5, ListCall head_request),
           (6, DetailCall head_request 9), (31, CreateCall invalid_submission)] sample_store
        @ [\<lparr>pk = 4, created_at = 32, field_values = ''hello''\<rparr>])"
proof -
  let ?cs = "[(30, CreateCall valid_submission), (5, ListCall head_request),
           (6, DetailCall head_request 9), (31, CreateCall invalid_submission)]"
  let ?new = "[\<lparr>pk = 4, created_at = 32, field_values = ''hello''\<rparr>]"
  have u: "pk_unique sample_store"
    by (simp add: pk_unique_def sample_store_def first_post_def second_post_def)
  have c: "snd (post_create sample_clean 32 valid_submission (run sample_clean ?cs sample_store))
             = run sample_clean ?cs sample_store @ ?new"
    unfolding sample_run
    by (simp add: post_create_def Let_def is_valid_def bound_form_def save_def sample_clean_def
        valid_submission_def sample_store_def first_post_def second_post_def)
  show ?thesis
    using u c identifiers_stay_unique [OF u c] by simp
qed

text \<open>
  C9. For every request whose method is not \<^verbatim>\<open>POST\<close> (be it \<^verbatim>\<open>GET\<close>,
  \<^verbatim>\<open>HEAD\<close>, \<^verbatim>\<open>PUT\<close> or \<^verbatim>\<open>DELETE\<close>), the create handler renders the
  create page with an unbound form without data or errors and leaves the table as it was.
\<close>

theorem create_display_for_non_post:
  assumes "request_method request \<noteq> ''POST''"
  shows "post_create clean now request s =
           (Inr (render request ''blog/create.html''
              [(''form'', Form \<lparr>data = None, errors = None, cleaned_data = None\<rparr>)]), s)"
  using assms by (simp add: post_create_display unbound_form_def)

theorem create_display_witness:
  "request_method head_request \<noteq> ''POST''
   \<and> post_create sample_clean 30 head_request sample_store =
       (Inr (render head_request ''blog/create.html''
          [(''form'', Form \<lparr>data = None, errors = None, cleaned_data = None\<rparr>)]), sample_store)"
proof -
  have m: "request_method head_request \<noteq> ''POST''"
    by (simp add: head_request_def)
  show ?thesis
    using m create_display_for_non_post [OF m, of sample_clean 30 sample_store] by simp
qed

end
